theory Spec2Isabelle
  imports Complex_Main "HOL-Library.Word" "HOL-Library.Log_Nat"
begin

section \<open>The WebGL pixel mirror (p5-webgl-pixel-mirror/sketch.js)\<close>

text \<open>
  The sketch samples a down-scaled webcam image on a regular grid and draws one
  lit, rotated disk per grid cell. JavaScript numbers are reals, and integers
  where the source only ever holds integers. In the sampler, where a floor
  follows a quotient and a product and decides which pixel is read, both are
  rounded to double precision as JavaScript rounds them; the other arithmetic
  is exact. A value that JavaScript leaves \<open>undefined\<close> (a read past the end
  of the pixel array) or \<open>NaN\<close> (arithmetic on such a value) is \<open>None\<close>.
\<close>

subsection \<open>State\<close>

text \<open>
  The globals of the sketch (\<open>gridSize\<close>, \<open>diskRadius\<close>, \<open>scaleValue\<close>), the p5
  globals it reads (\<open>width\<close>, \<open>height\<close>, \<open>mouseX\<close>, \<open>mouseY\<close>) and the capture
  object (\<open>capture.width\<close>, \<open>capture.height\<close>, \<open>capture.pixels\<close>). The field
  \<open>capture_video\<close> is the camera's current image: it is the parameter that stands
  for what \<open>capture.loadPixels()\<close> copies into \<open>capture.pixels\<close>.
\<close>

record sketch =
  gridSize :: real
  diskRadius :: real
  scaleValue :: real
  width :: real
  height :: real
  mouseX :: real
  mouseY :: real
  capture_width :: int
  capture_height :: int
  capture_pixels :: "8 word list"
  capture_video :: "8 word list"

text \<open>
  The state after the top-level declarations and \<open>setup()\<close>: a 1280 x 720 canvas
  and a capture of size 1920 / scaleValue by 1080 / scaleValue, that is 192 x 108.
  The pixel array is empty until the first \<open>loadPixels()\<close>.
\<close>

definition setup_sketch :: "8 word list \<Rightarrow> sketch" where
  "setup_sketch video =
     \<lparr> gridSize = 20, diskRadius = 15, scaleValue = 10,
       width = 1280, height = 720, mouseX = 0, mouseY = 0,
       capture_width = 192, capture_height = 108,
       capture_pixels = [], capture_video = video \<rparr>"

subsection \<open>Rendering calls\<close>

text \<open>
  The calls the sketch makes to the renderer, in the order it makes them. The
  depth of a translation and the angle of a rotation may be \<open>NaN\<close>, a material
  channel may be \<open>undefined\<close>.
\<close>

datatype cmd =
    Background real
  | AmbientLight real
  | DirectionalLight real real real real real real
  | PointLight real real real real real real
  | Translate real real "real option"
  | Push
  | RotateX "real option"
  | SpecularMaterial "8 word option" "8 word option" "8 word option"
  | Shininess real
  | Cylinder real real
  | Pop

fun is_cylinder :: "cmd \<Rightarrow> bool" where
  "is_cylinder (Cylinder r h) = True"
| "is_cylinder c = False"

subsection \<open>Library functions\<close>

text \<open>
  Modelled from the spec: p5's \<open>map(n, start1, stop1, start2, stop2)\<close>, which is
  not part of the sketch's source. The spec describes it as the linear rescale
  that sends \<open>start1\<close> to \<open>start2\<close> and \<open>stop1\<close> to \<open>stop2\<close>.
\<close>

definition map_p5 :: "real \<Rightarrow> real \<Rightarrow> real \<Rightarrow> real \<Rightarrow> real \<Rightarrow> real" where
  "map_p5 n start1 stop1 start2 stop2 =
     (n - start1) / (stop1 - start1) * (stop2 - start2) + start2"

text \<open>
  p5's \<open>floor\<close>, \<open>max\<close> and \<open>min\<close> are the mathematical functions of
  the same names, and \<open>PI\<close> is the constant pi.

  Indexing the pixel array, \<open>capture.pixels[i]\<close>: an element of a typed array
  of unsigned bytes, \<open>undefined\<close> outside the array.
\<close>

definition pixel_at :: "8 word list \<Rightarrow> int \<Rightarrow> 8 word option" where
  "pixel_at ps i = (if 0 \<le> i \<and> nat i < length ps then Some (ps ! nat i) else None)"

subsection \<open>Double precision\<close>

text \<open>
  The IEEE 754 binary64 value of a real: the nearest number with a significand
  of 53 bits, a tie going to the even significand. \<open>expo r\<close> is the exponent e
  with 2^e <= r < 2^(e+1) of a positive r, \<open>rne\<close> rounds to the nearest integer,
  ties to even, and \<open>fl\<close> rounds r on the grid of spacing 2^(e-52). The range of
  the exponent is not limited: overflow and subnormal numbers need magnitudes
  beyond 2^1023 or below 2^(-1022), which no quotient or product of integers
  below 2^53 reaches.
\<close>

definition expo :: "real \<Rightarrow> int" where
  "expo r = (if 1 \<le> r then bitlen \<lfloor>r\<rfloor> - 1 else - bitlen (\<lceil>1 / r\<rceil> - 1))"

definition rne :: "real \<Rightarrow> int" where
  "rne m =
     (let f = \<lfloor>m\<rfloor>; d = m - real_of_int f
      in if d < 1 / 2 then f else if 1 / 2 < d then f + 1 else if even f then f else f + 1)"

definition fl :: "real \<Rightarrow> real" where
  "fl r =
     (if r = 0 then 0
      else let u = 2 powi (expo \<bar>r\<bar> - 52) in real_of_int (rne (r / u)) * u)"

subsection \<open>The frame sampler\<close>

definition cols :: "sketch \<Rightarrow> int" where
  "cols s = \<lfloor>width s / gridSize s\<rfloor>"

definition rows :: "sketch \<Rightarrow> int" where
  "rows s = \<lfloor>height s / gridSize s\<rfloor>"

text \<open>
  \<open>floor((x / cols) * capture.width)\<close>: the quotient of the counter and the
  number of columns is rounded, its product with the width is rounded, and
  the floor is taken of that.
\<close>

definition captureX :: "sketch \<Rightarrow> int \<Rightarrow> nat \<Rightarrow> int" where
  "captureX s cs x = \<lfloor>fl (fl (real x / real_of_int cs) * real_of_int (capture_width s))\<rfloor>"

definition captureY :: "sketch \<Rightarrow> int \<Rightarrow> nat \<Rightarrow> int" where
  "captureY s rs y = \<lfloor>fl (fl (real y / real_of_int rs) * real_of_int (capture_height s))\<rfloor>"

text \<open>
  The offset is integer arithmetic, exact in double precision below 2^53, which
  is beyond the length of any array.
\<close>

definition offset :: "sketch \<Rightarrow> int \<Rightarrow> int \<Rightarrow> nat \<Rightarrow> nat \<Rightarrow> int" where
  "offset s cs rs x y = (captureY s rs y * capture_width s + captureX s cs x) * 4"

subsection \<open>Brightness, rotation and depth\<close>

text \<open>\<open>(r + g + b) / 3\<close>: the sum is \<open>NaN\<close> as soon as one channel is \<open>undefined\<close>.\<close>

definition brightness :: "8 word option \<Rightarrow> 8 word option \<Rightarrow> 8 word option \<Rightarrow> real option" where
  "brightness r g b =
     (case r of None \<Rightarrow> None | Some r' \<Rightarrow>
       (case g of None \<Rightarrow> None | Some g' \<Rightarrow>
         (case b of None \<Rightarrow> None | Some b' \<Rightarrow>
            Some ((real (unat r') + real (unat g') + real (unat b')) / 3))))"

definition rotationX :: "real \<Rightarrow> real" where
  "rotationX br = map_p5 br 0 255 0 pi"

definition zDepth :: "real \<Rightarrow> real" where
  "zDepth br = map_p5 br 0 255 (- 100) 100"

subsection \<open>One frame\<close>

text \<open>The body of the inner loop: the calls made for the cell in column x of row y.\<close>

definition draw_cell :: "sketch \<Rightarrow> int \<Rightarrow> int \<Rightarrow> nat \<Rightarrow> nat \<Rightarrow> cmd list" where
  "draw_cell s cs rs x y =
     (let off = offset s cs rs x y;
          r = pixel_at (capture_pixels s) off;
          g = pixel_at (capture_pixels s) (off + 1);
          b = pixel_at (capture_pixels s) (off + 2);
          br = brightness r g b;
          xPos = real x * gridSize s + gridSize s / 2;
          yPos = real y * gridSize s + gridSize s / 2
      in [Push,
          Translate xPos yPos (map_option zDepth br),
          RotateX (map_option rotationX br),
          SpecularMaterial r g b,
          Shininess 20,
          Cylinder (diskRadius s) 2,
          Pop])"

text \<open>The inner loop \<open>for (let x = 0; x < cols; x++)\<close>, from the counter x on.\<close>

function draw_cols :: "sketch \<Rightarrow> int \<Rightarrow> int \<Rightarrow> nat \<Rightarrow> nat \<Rightarrow> cmd list" where
  "draw_cols s cs rs y x =
     (if int x < cs then draw_cell s cs rs x y @ draw_cols s cs rs y (Suc x) else [])"
  by pat_completeness auto
termination
  by (relation "measure (\<lambda>(s, cs, rs, y, x). nat (cs - int x))") auto

text \<open>The outer loop \<open>for (let y = 0; y < rows; y++)\<close>, from the counter y on.\<close>

function draw_rows :: "sketch \<Rightarrow> int \<Rightarrow> int \<Rightarrow> nat \<Rightarrow> cmd list" where
  "draw_rows s cs rs y =
     (if int y < rs then draw_cols s cs rs y 0 @ draw_rows s cs rs (Suc y) else [])"
  by pat_completeness auto
termination
  by (relation "measure (\<lambda>(s, cs, rs, y). nat (rs - int y))") auto

declare draw_cols.simps [simp del]
declare draw_rows.simps [simp del]

text \<open>The calls before the loops: background, the three lights, the shift of the origin.\<close>

definition lights :: "sketch \<Rightarrow> cmd list" where
  "lights s =
     (let locX = mouseX s - width s / 2;
          locY = mouseY s - height s / 2
      in [Background 20,
          AmbientLight 60,
          DirectionalLight 255 255 255 0.25 0.25 1,
          PointLight 200 200 255 locX locY 200,
          Translate (- width s / 2) (- height s / 2) (Some 0)])"

text \<open>\<open>capture.loadPixels()\<close>: the pixel array becomes the camera's current image.\<close>

definition loadPixels :: "sketch \<Rightarrow> sketch" where
  "loadPixels s = s\<lparr>capture_pixels := capture_video s\<rparr>"

text \<open>
  \<open>draw()\<close> returns the calls of one frame and the state after it. With
  \<open>gridSize = 0\<close> on a canvas of positive height, \<open>rows\<close> is \<open>Infinity\<close> and the
  outer loop never ends: the result is \<open>None\<close>. (With \<open>gridSize = 0\<close> and a height
  that is not positive, \<open>rows\<close> is \<open>NaN\<close> or \<open>-Infinity\<close> and the loop does not
  run, which is what the quotient 0 of HOL gives as well.)
\<close>

definition draw :: "sketch \<Rightarrow> (cmd list \<times> sketch) option" where
  "draw s =
     (if gridSize s = 0 \<and> 0 < height s then None
      else let s' = loadPixels s
           in Some (lights s @ draw_rows s' (cols s) (rows s) 0, s'))"

subsection \<open>Keyboard\<close>

text \<open>A key press: p5's globals \<open>key\<close> and \<open>keyCode\<close> at the time of the event.\<close>

record key_event =
  key :: string
  keyCode :: int

definition UP_ARROW :: int where
  "UP_ARROW = 38"

definition DOWN_ARROW :: int where
  "DOWN_ARROW = 40"

definition keyPressed :: "key_event \<Rightarrow> sketch \<Rightarrow> sketch" where
  "keyPressed e s =
     (let s0 = (if key e = '' '' then s else s);
          s1 = (if keyCode e = UP_ARROW then s0\<lparr>gridSize := max 10 (gridSize s0 - 2)\<rparr>
                else if keyCode e = DOWN_ARROW then s0\<lparr>gridSize := min 40 (gridSize s0 + 2)\<rparr>
                else s0)
      in if key e = ''['' then s1\<lparr>diskRadius := max 5 (diskRadius s1 - 2)\<rparr>
         else if key e = '']'' then s1\<lparr>diskRadius := min 30 (diskRadius s1 + 2)\<rparr>
         else s1)"

subsection \<open>A sample input\<close>

text \<open>
  A uniformly grey camera image of the size of the capture, 192 x 108 pixels of
  four channels each, used where a property is shown at a concrete input.
\<close>

definition grey_frame :: "8 word list" where
  "grey_frame = replicate (192 * 108 * 4) 200"

text \<open>An image of the same size whose element i is i modulo 256.\<close>

definition ramp_frame :: "8 word list" where
  "ramp_frame = map of_nat [0..<192 * 108 * 4]"

section \<open>Properties\<close>

subsection \<open>Brightness\<close>

lemma byte_real_le: "real (unat (w :: 8 word)) \<le> 255"
proof -
  have "unat w < 2 ^ 8" using unsigned_less [of w, where 'a = nat] by simp
  then have "unat w \<le> 255" by simp
  then have "real (unat w) \<le> real 255" by (rule of_nat_mono)
  then show ?thesis by simp
qed

lemma avg3_bounds: "0 \<le> a \<Longrightarrow> 0 \<le> b \<Longrightarrow> 0 \<le> c \<Longrightarrow> a \<le> 255 \<Longrightarrow> b \<le> 255 \<Longrightarrow> c \<le> 255 \<Longrightarrow>
  0 \<le> (a + b + c) / 3 \<and> (a + b + c) / 3 \<le> (255::real)"
  by simp

text \<open>
  C3. For all channel values r, g, b (bytes, so integers in [0,255]) the
  brightness is (r + g + b) / 3 under exact division and lies in [0,255];
  r=10, g=20, b=30 gives exactly 20, and r=0, g=0, b=1 gives 1/3, not 0.
\<close>

theorem brightness_exact_average:
  "brightness (Some r) (Some g) (Some b) = Some ((real (unat r) + real (unat g) + real (unat b)) / 3)
   \<and> 0 \<le> (real (unat r) + real (unat g) + real (unat b)) / 3
   \<and> (real (unat r) + real (unat g) + real (unat b)) / 3 \<le> 255
   \<and> brightness (Some 10) (Some 20) (Some 30) = Some 20
   \<and> brightness (Some 0) (Some 0) (Some 1) = Some (1 / 3)"
proof -
  have avg: "brightness (Some r) (Some g) (Some b)
      = Some ((real (unat r) + real (unat g) + real (unat b)) / 3)"
    by (simp add: brightness_def)
  have bounds: "0 \<le> (real (unat r) + real (unat g) + real (unat b)) / 3
      \<and> (real (unat r) + real (unat g) + real (unat b)) / 3 \<le> 255"
    by (rule avg3_bounds) (rule of_nat_0_le_iff byte_real_le)+
  have e1: "brightness (Some 10) (Some 20) (Some 30) = Some 20"
    by (simp add: brightness_def)
  have e2: "brightness (Some 0) (Some 0) (Some 1) = Some (1 / 3)"
    by (simp add: brightness_def)
  from avg bounds e1 e2 show ?thesis by blast
qed

subsection \<open>Rotation and depth of a disk\<close>

lemma rotationX_linear: "rotationX br = br * pi / 255"
  by (simp add: rotationX_def map_p5_def)

lemma zDepth_linear: "zDepth br = br * 200 / 255 - 100"
  by (simp add: zDepth_def map_p5_def)

lemma draw_cell_nth_1:
  "draw_cell s cs rs x y ! 1 =
     Translate (real x * gridSize s + gridSize s / 2) (real y * gridSize s + gridSize s / 2)
       (map_option zDepth
         (brightness (pixel_at (capture_pixels s) (offset s cs rs x y))
                     (pixel_at (capture_pixels s) (offset s cs rs x y + 1))
                     (pixel_at (capture_pixels s) (offset s cs rs x y + 2))))"
  by (simp add: draw_cell_def Let_def)

lemma draw_cell_nth_2:
  "draw_cell s cs rs x y ! 2 =
     RotateX (map_option rotationX
         (brightness (pixel_at (capture_pixels s) (offset s cs rs x y))
                     (pixel_at (capture_pixels s) (offset s cs rs x y + 1))
                     (pixel_at (capture_pixels s) (offset s cs rs x y + 2))))"
  by (simp add: draw_cell_def Let_def)

text \<open>
  C4. For every brightness, the depth of the disk is map(brightness, 0, 255, -100, 100)
  and its rotation about the X axis is map(brightness, 0, 255, 0, pi), map being
  the linear rescale: brightness 0 gives depth -100 and rotation 0, brightness
  255 gives depth 100 and rotation pi, brightness 127.5 gives depth 0 and rotation
  pi/2. The second and third call of a cell, its translation and its rotation,
  carry these two values for the brightness of the cell's sample.
\<close>

theorem disk3D_depth_and_rotation:
  "zDepth br = map_p5 br 0 255 (- 100) 100
   \<and> rotationX br = map_p5 br 0 255 0 pi
   \<and> map_p5 br 0 255 (- 100) 100 = br * 200 / 255 - 100
   \<and> map_p5 br 0 255 0 pi = br * pi / 255
   \<and> zDepth 0 = - 100 \<and> rotationX 0 = 0
   \<and> zDepth 255 = 100 \<and> rotationX 255 = pi
   \<and> zDepth 127.5 = 0 \<and> rotationX 127.5 = pi / 2
   \<and> draw_cell s cs rs x y ! 1 =
       Translate (real x * gridSize s + gridSize s / 2) (real y * gridSize s + gridSize s / 2)
         (map_option zDepth
           (brightness (pixel_at (capture_pixels s) (offset s cs rs x y))
                       (pixel_at (capture_pixels s) (offset s cs rs x y + 1))
                       (pixel_at (capture_pixels s) (offset s cs rs x y + 2))))
   \<and> draw_cell s cs rs x y ! 2 =
       RotateX (map_option rotationX
           (brightness (pixel_at (capture_pixels s) (offset s cs rs x y))
                       (pixel_at (capture_pixels s) (offset s cs rs x y + 1))
                       (pixel_at (capture_pixels s) (offset s cs rs x y + 2))))"
proof -
  have z: "zDepth br = map_p5 br 0 255 (- 100) 100"
    by (simp add: zDepth_def)
  have r: "rotationX br = map_p5 br 0 255 0 pi"
    by (simp add: rotationX_def)
  have zl: "map_p5 br 0 255 (- 100) 100 = br * 200 / 255 - 100"
    using zDepth_linear [of br] by (simp add: zDepth_def)
  have rl: "map_p5 br 0 255 0 pi = br * pi / 255"
    using rotationX_linear [of br] by (simp add: rotationX_def)
  have z0: "zDepth 0 = - 100" by (simp add: zDepth_linear)
  have r0: "rotationX 0 = 0" by (simp add: rotationX_linear)
  have z1: "zDepth 255 = 100" by (simp add: zDepth_linear)
  have r1: "rotationX 255 = pi" by (simp add: rotationX_linear)
  have zm: "zDepth 127.5 = 0" by (simp add: zDepth_linear)
  have rm: "rotationX 127.5 = pi / 2" by (simp add: rotationX_linear)
  note t = draw_cell_nth_1 [of s cs rs x y] draw_cell_nth_2 [of s cs rs x y]
  from z r zl rl z0 r0 z1 r1 zm rm t show ?thesis by blast
qed

text \<open>
  C9. The rotation and the depth are monotonic non-decreasing in the brightness:
  for 0 <= b1 <= b2 <= 255, map(b1,0,255,0,pi) <= map(b2,0,255,0,pi) and
  map(b1,0,255,-100,100) <= map(b2,0,255,-100,100); so the rotation of a
  brightness in [0,255] lies in [0,pi] and its depth in [-100,100].
\<close>

theorem rotation_depth_monotone:
  "0 \<le> b1 \<Longrightarrow> b1 \<le> b2 \<Longrightarrow> b2 \<le> 255 \<Longrightarrow>
     map_p5 b1 0 255 0 pi \<le> map_p5 b2 0 255 0 pi
     \<and> map_p5 b1 0 255 (- 100) 100 \<le> map_p5 b2 0 255 (- 100) 100
     \<and> 0 \<le> rotationX b1 \<and> rotationX b1 \<le> rotationX b2 \<and> rotationX b2 \<le> pi
     \<and> - 100 \<le> zDepth b1 \<and> zDepth b1 \<le> zDepth b2 \<and> zDepth b2 \<le> 100"
proof -
  assume lo: "0 \<le> b1" and le: "b1 \<le> b2" and hi: "b2 \<le> 255"
  have p: "0 \<le> pi" by simp
  have r0: "0 \<le> rotationX b1"
    using lo p by (simp add: rotationX_linear)
  have r1: "rotationX b1 \<le> rotationX b2"
    using le p by (simp add: rotationX_linear mult_right_mono)
  have "b2 * pi \<le> 255 * pi" using hi p by (rule mult_right_mono)
  then have r2: "rotationX b2 \<le> pi"
    by (simp add: rotationX_linear)
  have z0: "- 100 \<le> zDepth b1" using lo by (simp add: zDepth_linear)
  have z1: "zDepth b1 \<le> zDepth b2" using le by (simp add: zDepth_linear)
  have z2: "zDepth b2 \<le> 100" using hi by (simp add: zDepth_linear)
  from r1 z1 have m: "map_p5 b1 0 255 0 pi \<le> map_p5 b2 0 255 0 pi
     \<and> map_p5 b1 0 255 (- 100) 100 \<le> map_p5 b2 0 255 (- 100) 100"
    by (simp add: rotationX_def zDepth_def)
  from m r0 r1 r2 z0 z1 z2 show ?thesis by blast
qed

theorem rotation_depth_monotone_witness:
  "(0::real) \<le> 51 \<and> (51::real) \<le> 204 \<and> (204::real) \<le> 255
   \<and> map_p5 51 0 255 0 pi \<le> map_p5 204 0 255 0 pi
   \<and> map_p5 51 0 255 (- 100) 100 \<le> map_p5 204 0 255 (- 100) 100
   \<and> 0 \<le> rotationX 51 \<and> rotationX 51 \<le> rotationX 204 \<and> rotationX 204 \<le> pi
   \<and> - 100 \<le> zDepth 51 \<and> zDepth 51 \<le> zDepth 204 \<and> zDepth 204 \<le> 100"
  using rotation_depth_monotone [of 51 204] by simp

subsection \<open>Grid dimensions\<close>


lemma draw_Some:
  "gridSize s \<noteq> 0 \<or> height s \<le> 0 \<Longrightarrow>
   draw s = Some (lights s @ draw_rows (loadPixels s) (cols s) (rows s) 0, loadPixels s)"
  by (auto simp add: draw_def Let_def)



subsection \<open>Key presses\<close>

lemma keyPressed_gridSize:
  "10 \<le> gridSize s \<Longrightarrow> gridSize s \<le> 40 \<Longrightarrow>
   10 \<le> gridSize (keyPressed e s) \<and> gridSize (keyPressed e s) \<le> 40"
  by (simp add: keyPressed_def Let_def)

lemma keyPressed_diskRadius:
  "5 \<le> diskRadius s \<Longrightarrow> diskRadius s \<le> 30 \<Longrightarrow>
   5 \<le> diskRadius (keyPressed e s) \<and> diskRadius (keyPressed e s) \<le> 30"
  by (simp add: keyPressed_def Let_def)

lemma keyPressed_fold_bounds:
  "10 \<le> gridSize s \<Longrightarrow> gridSize s \<le> 40 \<Longrightarrow> 5 \<le> diskRadius s \<Longrightarrow> diskRadius s \<le> 30 \<Longrightarrow>
   10 \<le> gridSize (fold keyPressed es s) \<and> gridSize (fold keyPressed es s) \<le> 40
   \<and> 5 \<le> diskRadius (fold keyPressed es s) \<and> diskRadius (fold keyPressed es s) \<le> 30"
proof (induction es arbitrary: s)
  case Nil
  then show ?case by simp
next
  case (Cons e es)
  from Cons.prems keyPressed_gridSize [of s e] keyPressed_diskRadius [of s e]
  have "10 \<le> gridSize (keyPressed e s)" "gridSize (keyPressed e s) \<le> 40"
       "5 \<le> diskRadius (keyPressed e s)" "diskRadius (keyPressed e s) \<le> 30"
    by blast+
  then show ?case using Cons.IH [of "keyPressed e s"] by simp
qed

text \<open>
  C6. The predicate "gridSize in [10,40] and diskRadius in [5,30]" is kept by
  every key press, and it holds after any finite sequence of key presses that
  starts from the initial configuration (gridSize = 20, diskRadius = 15).
\<close>

theorem keyPressed_keeps_bounds:
  "(10 \<le> gridSize s \<and> gridSize s \<le> 40 \<and> 5 \<le> diskRadius s \<and> diskRadius s \<le> 30 \<longrightarrow>
      10 \<le> gridSize (keyPressed e s) \<and> gridSize (keyPressed e s) \<le> 40
      \<and> 5 \<le> diskRadius (keyPressed e s) \<and> diskRadius (keyPressed e s) \<le> 30)
   \<and> gridSize (setup_sketch video) = 20 \<and> diskRadius (setup_sketch video) = 15
   \<and> 10 \<le> gridSize (fold keyPressed es (setup_sketch video))
   \<and> gridSize (fold keyPressed es (setup_sketch video)) \<le> 40
   \<and> 5 \<le> diskRadius (fold keyPressed es (setup_sketch video))
   \<and> diskRadius (fold keyPressed es (setup_sketch video)) \<le> 30"
proof -
  have step: "10 \<le> gridSize s \<and> gridSize s \<le> 40 \<and> 5 \<le> diskRadius s \<and> diskRadius s \<le> 30 \<longrightarrow>
      10 \<le> gridSize (keyPressed e s) \<and> gridSize (keyPressed e s) \<le> 40
      \<and> 5 \<le> diskRadius (keyPressed e s) \<and> diskRadius (keyPressed e s) \<le> 30"
    using keyPressed_gridSize [of s e] keyPressed_diskRadius [of s e] by blast
  have init: "gridSize (setup_sketch video) = 20 \<and> diskRadius (setup_sketch video) = 15"
    by (simp add: setup_sketch_def)
  then have run: "10 \<le> gridSize (fold keyPressed es (setup_sketch video))
   \<and> gridSize (fold keyPressed es (setup_sketch video)) \<le> 40
   \<and> 5 \<le> diskRadius (fold keyPressed es (setup_sketch video))
   \<and> diskRadius (fold keyPressed es (setup_sketch video)) \<le> 30"
    by (intro keyPressed_fold_bounds) simp_all
  from step init run show ?thesis by blast
qed

theorem keyPressed_keeps_bounds_witness:
  "10 \<le> gridSize (setup_sketch []) \<and> gridSize (setup_sketch []) \<le> 40
   \<and> 5 \<le> diskRadius (setup_sketch []) \<and> diskRadius (setup_sketch []) \<le> 30
   \<and> 10 \<le> gridSize (keyPressed \<lparr>key = ''['', keyCode = 38\<rparr> (setup_sketch []))
   \<and> gridSize (keyPressed \<lparr>key = ''['', keyCode = 38\<rparr> (setup_sketch [])) \<le> 40
   \<and> 5 \<le> diskRadius (keyPressed \<lparr>key = ''['', keyCode = 38\<rparr> (setup_sketch []))
   \<and> diskRadius (keyPressed \<lparr>key = ''['', keyCode = 38\<rparr> (setup_sketch [])) \<le> 30
   \<and> 10 \<le> gridSize (fold keyPressed
        [\<lparr>key = '']'', keyCode = 40\<rparr>, \<lparr>key = ''['', keyCode = 38\<rparr>] (setup_sketch []))
   \<and> diskRadius (fold keyPressed
        [\<lparr>key = '']'', keyCode = 40\<rparr>, \<lparr>key = ''['', keyCode = 38\<rparr>] (setup_sketch [])) \<le> 30"
proof -
  have pre: "10 \<le> gridSize (setup_sketch []) \<and> gridSize (setup_sketch []) \<le> 40
   \<and> 5 \<le> diskRadius (setup_sketch []) \<and> diskRadius (setup_sketch []) \<le> 30"
    by (simp add: setup_sketch_def)
  with keyPressed_keeps_bounds [of "setup_sketch []" "\<lparr>key = ''['', keyCode = 38\<rparr>" "[]"
      "[\<lparr>key = '']'', keyCode = 40\<rparr>, \<lparr>key = ''['', keyCode = 38\<rparr>]"]
  show ?thesis by blast
qed

subsection \<open>The two loops\<close>

text \<open>
  The loops run over the cells row by row; each cell contributes a block of seven calls.
\<close>

lemma draw_cols_eq:
  "draw_cols s cs rs y x = concat (map (\<lambda>x. draw_cell s cs rs x y) [x..<nat cs])"
proof (induction s cs rs y x rule: draw_cols.induct)
  case (1 s cs rs y x)
  show ?case
  proof (cases "int x < cs")
    case True
    then have "x < nat cs" by simp
    then have "[x..<nat cs] = x # [Suc x..<nat cs]" by (rule upt_conv_Cons)
    with True "1.IH" show ?thesis
      by (subst draw_cols.simps) simp
  next
    case False
    then have "[x..<nat cs] = []" by simp
    with False show ?thesis
      by (subst draw_cols.simps) simp
  qed
qed

lemma draw_rows_eq:
  "draw_rows s cs rs y = concat (map (\<lambda>y. draw_cols s cs rs y 0) [y..<nat rs])"
proof (induction s cs rs y rule: draw_rows.induct)
  case (1 s cs rs y)
  show ?case
  proof (cases "int y < rs")
    case True
    then have "y < nat rs" by simp
    then have "[y..<nat rs] = y # [Suc y..<nat rs]" by (rule upt_conv_Cons)
    with True "1.IH" show ?thesis
      by (subst draw_rows.simps) simp
  next
    case False
    then have "[y..<nat rs] = []" by simp
    with False show ?thesis
      by (subst draw_rows.simps) simp
  qed
qed

lemma draw_rows_cells:
  "draw_rows s cs rs 0 =
     concat (map (\<lambda>y. concat (map (\<lambda>x. draw_cell s cs rs x y) [0..<nat cs])) [0..<nat rs])"
  by (simp add: draw_rows_eq draw_cols_eq)

lemma length_draw_cell: "length (draw_cell s cs rs x y) = 7"
  by (simp add: draw_cell_def Let_def)

lemma cylinders_draw_cell: "length (filter is_cylinder (draw_cell s cs rs x y)) = 1"
  by (simp add: draw_cell_def Let_def)

lemma cylinders_lights: "filter is_cylinder (lights s) = []"
  by (simp add: lights_def Let_def)

lemma length_lights: "length (lights s) = 5"
  by (simp add: lights_def Let_def)

lemma count_concat_blocks:
  "(\<And>i. length (filter P (f i)) = k) \<Longrightarrow>
   length (filter P (concat (map f [0..<n]))) = n * k"
  by (induction n) simp_all

lemma length_concat_blocks:
  "(\<And>i. length (f i) = k) \<Longrightarrow> length (concat (map f [0..<n])) = n * k"
  by (induction n) simp_all

lemma nth_concat_blocks:
  assumes len: "\<And>i. length (f i) = k"
    and i: "i < n" and j: "j < k"
  shows "concat (map f [0..<n]) ! (i * k + j) = f i ! j"
  using i
proof (induction n)
  case 0
  then show ?case by simp
next
  case (Suc n)
  have l: "length (concat (map f [0..<n])) = n * k"
    using len by (rule length_concat_blocks)
  show ?case
  proof (cases "i < n")
    case True
    then have "Suc i \<le> n" by simp
    then have "Suc i * k \<le> n * k" by (rule mult_le_mono1)
    with j have "i * k + j < n * k" by simp
    with l Suc.IH [OF True] show ?thesis by (simp add: nth_append)
  next
    case False
    with Suc.prems have "i = n" by simp
    with l show ?thesis by (simp add: nth_append)
  qed
qed

lemma cylinders_draw_rows:
  "length (filter is_cylinder (draw_rows s cs rs 0)) = nat rs * nat cs"
proof -
  have row: "\<And>y. length (filter is_cylinder
        (concat (map (\<lambda>x. draw_cell s cs rs x y) [0..<nat cs]))) = nat cs * 1"
    by (rule count_concat_blocks) (rule cylinders_draw_cell)
  have "length (filter is_cylinder (concat (map
          (\<lambda>y. concat (map (\<lambda>x. draw_cell s cs rs x y) [0..<nat cs])) [0..<nat rs])))
        = nat rs * (nat cs * 1)"
    by (rule count_concat_blocks) (rule row)
  then show ?thesis by (simp add: draw_rows_cells)
qed

lemma nth_draw_rows:
  assumes x: "x < nat cs" and y: "y < nat rs" and j: "j < 7"
  shows "draw_rows s cs rs 0 ! (7 * (y * nat cs + x) + j) = draw_cell s cs rs x y ! j"
proof -
  let ?row = "\<lambda>y. concat (map (\<lambda>x. draw_cell s cs rs x y) [0..<nat cs])"
  have lrow: "\<And>y. length (?row y) = nat cs * 7"
    by (rule length_concat_blocks) (rule length_draw_cell)
  have inrow: "?row y ! (x * 7 + j) = draw_cell s cs rs x y ! j"
    using length_draw_cell x j by (rule nth_concat_blocks)
  from x have "Suc x \<le> nat cs" by simp
  then have "Suc x * 7 \<le> nat cs * 7" by (rule mult_le_mono1)
  with j have jj: "x * 7 + j < nat cs * 7" by simp
  have "concat (map ?row [0..<nat rs]) ! (y * (nat cs * 7) + (x * 7 + j)) = ?row y ! (x * 7 + j)"
    using lrow y jj by (rule nth_concat_blocks)
  moreover have "y * (nat cs * 7) + (x * 7 + j) = 7 * (y * nat cs + x) + j"
    by (simp add: algebra_simps)
  ultimately show ?thesis using inrow by (simp add: draw_rows_cells)
qed

subsection \<open>Rounding to double precision\<close>

lemma rne_floor_le: "\<lfloor>m\<rfloor> \<le> rne m"
  by (simp add: rne_def Let_def)

lemma rne_le_ceiling: "rne m \<le> \<lceil>m\<rceil>"
  unfolding rne_def Let_def by (auto simp: ceiling_altdef)

lemma rne_le_half: "real_of_int (rne m) \<le> m + 1 / 2"
  unfolding rne_def Let_def by (auto; linarith)

lemma rne_nonneg: "0 \<le> m \<Longrightarrow> 0 \<le> rne m"
  using rne_floor_le [of m] by (simp add: order_trans [of 0 "\<lfloor>m\<rfloor>"])

lemma fl_nonneg: "0 \<le> r \<Longrightarrow> 0 \<le> fl r"
proof -
  assume r: "0 \<le> r"
  let ?u = "(2::real) powi (expo \<bar>r\<bar> - 52)"
  have u: "0 < ?u" by simp
  with r have "0 \<le> r / ?u" by simp
  then have "0 \<le> rne (r / ?u)" by (rule rne_nonneg)
  with u have "0 \<le> real_of_int (rne (r / ?u)) * ?u" by simp
  then show ?thesis by (simp add: fl_def Let_def)
qed

lemma bitlen_pos: "0 < n \<Longrightarrow> 1 \<le> bitlen n"
  by (simp add: bitlen_ge_iff_power)

lemma expo_below_one:
  assumes "0 < r" and "r < 1"
  shows "expo r \<le> - 1"
proof -
  from assms have "1 < 1 / r" by simp
  then have "1 < \<lceil>1 / r\<rceil>" by (simp add: less_ceiling_iff)
  then have "0 < \<lceil>1 / r\<rceil> - 1" by simp
  then have "1 \<le> bitlen (\<lceil>1 / r\<rceil> - 1)" by (rule bitlen_pos)
  with assms show ?thesis by (simp add: expo_def)
qed

text \<open>The power of two that \<open>expo\<close> names is not above the number.\<close>

lemma pow_expo_le:
  assumes r: "0 < r"
  shows "2 powi (expo r) \<le> r"
proof (cases "1 \<le> r")
  case True
  let ?n = "\<lfloor>r\<rfloor>"
  from True have n: "0 < ?n" by simp
  then have b: "1 \<le> bitlen ?n" by (rule bitlen_pos)
  from bitlen_bounds [OF n] have "2 ^ nat (bitlen ?n - 1) \<le> ?n" ..
  then have "real_of_int (2 ^ nat (bitlen ?n - 1)) \<le> real_of_int ?n"
    by (simp only: of_int_le_iff)
  also have "\<dots> \<le> r" by (rule of_int_floor_le)
  finally have "(2::real) ^ nat (bitlen ?n - 1) \<le> r" by simp
  moreover from b have "(2::real) powi (bitlen ?n - 1) = 2 ^ nat (bitlen ?n - 1)"
    by (simp add: power_int_nonneg_exp)
  ultimately show ?thesis using True by (simp add: expo_def)
next
  case False
  let ?n = "\<lceil>1 / r\<rceil> - 1"
  let ?L = "bitlen ?n"
  from False r have "1 < 1 / r" by simp
  then have "1 < \<lceil>1 / r\<rceil>" by (simp add: less_ceiling_iff)
  then have n: "0 < ?n" by simp
  from bitlen_bounds [OF n] have "?n < 2 ^ nat ?L" ..
  then have "\<lceil>1 / r\<rceil> \<le> 2 ^ nat ?L" by simp
  then have "real_of_int \<lceil>1 / r\<rceil> \<le> real_of_int (2 ^ nat ?L)"
    by (simp only: of_int_le_iff)
  then have "real_of_int \<lceil>1 / r\<rceil> \<le> 2 ^ nat ?L" by simp
  moreover have "1 / r \<le> real_of_int \<lceil>1 / r\<rceil>" by (rule le_of_int_ceiling)
  ultimately have "1 / r \<le> 2 ^ nat ?L" by (rule order_trans [rotated])
  with r have "1 \<le> 2 ^ nat ?L * r" by (simp add: pos_divide_le_eq)
  then have "1 / 2 ^ nat ?L \<le> r" by (simp add: pos_divide_le_eq mult.commute)
  moreover have "(2::real) powi (- ?L) = 1 / 2 ^ nat ?L"
    using bitlen_nonneg [of ?n] by (simp add: power_int_minus_divide power_int_nonneg_exp)
  ultimately show ?thesis using False by (simp add: expo_def)
qed

lemma pred_one_scaled:
  fixes P K :: real
  assumes "0 < P" and "0 < K"
  shows "(P * K - K) * (1 / (P * K)) = 1 - 1 / P"
  using assms by (simp add: field_simps)

text \<open>Nothing up to the largest double below 1 rounds above it.\<close>

lemma fl_le_pred_one:
  assumes r0: "0 \<le> r" and r1: "r \<le> 1 - 1 / 2 ^ 53"
  shows "fl r \<le> 1 - 1 / 2 ^ 53"
proof (cases "r = 0")
  case True
  then show ?thesis by (simp add: fl_def)
next
  case False
  with r0 have rp: "0 < r" by simp
  from r1 have "r < 1" by simp
  with rp have e1: "expo r \<le> - 1" by (rule expo_below_one)
  define k where "k = nat (- 1 - expo r)"
  from e1 have e: "expo r - 52 = - int (53 + k)" by (simp add: k_def)
  define u :: real where "u = 1 / 2 ^ (53 + k)"
  have u: "(2::real) powi (expo \<bar>r\<bar> - 52) = u"
  proof -
    from rp have "\<bar>r\<bar> = r" by simp
    then have "(2::real) powi (expo \<bar>r\<bar> - 52) = 2 powi (- int (53 + k))"
      by (simp only: e)
    also have "\<dots> = 1 / 2 powi (int (53 + k))" by (rule power_int_minus_divide)
    also have "\<dots> = 1 / 2 ^ (53 + k)" by (simp only: power_int_of_nat)
    finally show ?thesis by (simp only: u_def)
  qed
  have up: "0 < u" by (simp add: u_def)
  define N :: int where "N = 2 ^ (53 + k) - 2 ^ k"
  have "real_of_int N = 2 ^ 53 * 2 ^ k - 2 ^ k"
    by (simp only: N_def of_int_diff of_int_power of_int_numeral of_int_mult power_add)
  moreover have "u = 1 / (2 ^ 53 * 2 ^ k)"
    by (simp only: u_def power_add)
  ultimately have "real_of_int N * u = (2 ^ 53 * 2 ^ k - 2 ^ k) * (1 / (2 ^ 53 * 2 ^ k))"
    by (simp only:)
  also have "\<dots> = 1 - 1 / 2 ^ 53"
    by (rule pred_one_scaled) simp_all
  finally have N: "real_of_int N * u = 1 - 1 / 2 ^ 53" .
  from r1 N have "r \<le> real_of_int N * u" by (simp only:)
  then have "r / u \<le> real_of_int N"
    using up by (simp only: pos_divide_le_eq)
  then have "\<lceil>r / u\<rceil> \<le> N" by (simp only: ceiling_le_iff)
  with rne_le_ceiling [of "r / u"] have "rne (r / u) \<le> N" by (rule order_trans)
  then have "real_of_int (rne (r / u)) \<le> real_of_int N" by (simp only: of_int_le_iff)
  moreover from up have "0 \<le> u" by (rule less_imp_le)
  ultimately have "real_of_int (rne (r / u)) * u \<le> real_of_int N * u"
    by (rule mult_right_mono)
  then have "real_of_int (rne (r / u)) * u \<le> 1 - 1 / 2 ^ 53" by (simp only: N)
  moreover have "fl r = real_of_int (rne (r / u)) * u"
    using False by (simp only: fl_def Let_def u if_False)
  ultimately show ?thesis by (simp only:)
qed

text \<open>The rounded product of a double below 1 and a number w stays below w.\<close>

lemma fl_mult_less:
  assumes q0: "0 \<le> q" and q1: "q \<le> 1 - 1 / 2 ^ 53" and w: "1 \<le> w"
  shows "fl (q * w) < w"
proof (cases "q * w = 0")
  case True
  with w show ?thesis by (simp add: fl_def)
next
  case False
  let ?r = "q * w"
  from q0 w have "0 \<le> ?r" by simp
  from this not_sym [OF False] have rp: "0 < ?r" by (rule le_neq_trans)
  let ?u = "(2::real) powi (expo \<bar>?r\<bar> - 52)"
  have up: "0 < ?u" by simp
  have "?u = 2 powi (expo ?r) / 2 ^ 52"
    using rp by (simp add: power_int_diff)
  also have "\<dots> \<le> ?r / 2 ^ 52"
    using pow_expo_le [OF rp] by (simp add: divide_right_mono)
  finally have ule: "?u \<le> ?r / 2 ^ 52" .
  have "real_of_int (rne (?r / ?u)) \<le> ?r / ?u + 1 / 2" by (rule rne_le_half)
  then have "real_of_int (rne (?r / ?u)) * ?u \<le> (?r / ?u + 1 / 2) * ?u"
    using up by (simp only: mult_right_mono less_imp_le)
  also have "\<dots> = ?r + ?u / 2" using up by (simp add: field_simps)
  also have "\<dots> \<le> ?r + ?r / 2 ^ 53" using ule by simp
  finally have a: "real_of_int (rne (?r / ?u)) * ?u \<le> ?r * (1 + 1 / 2 ^ 53)"
    by (simp add: algebra_simps)
  from w have w0: "0 \<le> w" by simp
  from q1 w0 have "?r \<le> (1 - 1 / 2 ^ 53) * w"
    by (rule mult_right_mono)
  then have "?r * (1 + 1 / 2 ^ 53) \<le> ((1 - 1 / 2 ^ 53) * w) * (1 + 1 / 2 ^ 53)"
    by (rule mult_right_mono) simp
  also have "\<dots> < w" using w by simp
  finally have "?r * (1 + 1 / 2 ^ 53) < w" .
  with a have "real_of_int (rne (?r / ?u)) * ?u < w" by simp
  moreover have "fl ?r = real_of_int (rne (?r / ?u)) * ?u"
    using False by (simp only: fl_def Let_def if_False)
  ultimately show ?thesis by simp
qed

text \<open>
  The sampled index of a counter n below a count m of at most 2^53 (the
  integers a counter reaches in double precision) lies within a side of length w.
\<close>

lemma scaled_index_bounds:
  fixes n :: nat and m w :: int
  assumes n: "int n < m" and m: "m \<le> 2 ^ 53" and w: "1 \<le> w"
  shows "0 \<le> \<lfloor>fl (fl (real n / real_of_int m) * real_of_int w)\<rfloor>"
    and "\<lfloor>fl (fl (real n / real_of_int m) * real_of_int w)\<rfloor> \<le> w - 1"
proof -
  let ?q = "fl (real n / real_of_int m)"
  from n have mp: "0 < real_of_int m" by simp
  from w have wr: "1 \<le> real_of_int w" by simp
  have r0: "0 \<le> real n / real_of_int m" using mp by simp
  from n have "real n + 1 \<le> real_of_int m" by linarith
  then have "real n / real_of_int m \<le> 1 - 1 / real_of_int m"
    using mp by (simp add: field_simps)
  moreover from m have "real_of_int m \<le> 2 ^ 53"
    by (metis of_int_le_iff of_int_numeral of_int_power)
  then have "1 / (2::real) ^ 53 \<le> 1 / real_of_int m"
    using mp by (simp add: frac_le)
  ultimately have r1: "real n / real_of_int m \<le> 1 - 1 / 2 ^ 53" by linarith
  from r0 have q0: "0 \<le> ?q" by (rule fl_nonneg)
  from r0 r1 have q1: "?q \<le> 1 - 1 / 2 ^ 53" by (rule fl_le_pred_one)
  from q0 wr have "0 \<le> ?q * real_of_int w" by simp
  then have "0 \<le> fl (?q * real_of_int w)" by (rule fl_nonneg)
  then show "0 \<le> \<lfloor>fl (?q * real_of_int w)\<rfloor>" by simp
  from q0 q1 wr have "fl (?q * real_of_int w) < real_of_int w" by (rule fl_mult_less)
  then have "\<lfloor>fl (?q * real_of_int w)\<rfloor> < w" by (simp add: floor_less_iff)
  then show "\<lfloor>fl (?q * real_of_int w)\<rfloor> \<le> w - 1" by simp
qed

subsection \<open>Offsets into the pixel array\<close>

lemma draw_Some_pos:
  "0 < gridSize s \<Longrightarrow>
   draw s = Some (lights s @ draw_rows (loadPixels s) (cols s) (rows s) 0, loadPixels s)"
  by (rule draw_Some) simp

lemma sample_state:
  "capture_width (loadPixels (setup_sketch grey_frame)) = 192"
  "capture_height (loadPixels (setup_sketch grey_frame)) = 108"
  "capture_pixels (loadPixels (setup_sketch grey_frame)) = grey_frame"
  "gridSize (loadPixels (setup_sketch grey_frame)) = 20"
  "diskRadius (loadPixels (setup_sketch grey_frame)) = 15"
  "length grey_frame = 82944"
  by (simp_all add: loadPixels_def setup_sketch_def grey_frame_def)

lemma sampled_9: "\<lfloor>fl (fl (real 3 / real_of_int 64) * real_of_int 192)\<rfloor> = 9"
  by (simp add: fl_def expo_def rne_def Let_def compute_bitlen)

lemma sampled_6: "\<lfloor>fl (fl (real 2 / real_of_int 36) * real_of_int 108)\<rfloor> = 6"
  by (simp add: fl_def expo_def rne_def Let_def compute_bitlen)

lemma offset_bounds:
  assumes w: "1 \<le> capture_width s" and h: "1 \<le> capture_height s"
    and cs: "cs \<le> 2 ^ 53" and rs: "rs \<le> 2 ^ 53"
    and x: "int x < cs" and y: "int y < rs"
  shows "0 \<le> offset s cs rs x y"
    and "offset s cs rs x y \<le> (capture_width s * capture_height s - 1) * 4"
proof -
  let ?cx = "captureX s cs x" and ?cy = "captureY s rs y"
  let ?w = "capture_width s" and ?h = "capture_height s"
  have cx: "0 \<le> ?cx" "?cx \<le> ?w - 1"
    unfolding captureX_def using x cs w by (rule scaled_index_bounds)+
  have cy: "0 \<le> ?cy" "?cy \<le> ?h - 1"
    unfolding captureY_def using y rs h by (rule scaled_index_bounds)+
  from w have w0: "0 \<le> ?w" by simp
  from cy(1) w0 have "0 \<le> ?cy * ?w" by (rule mult_nonneg_nonneg)
  with cx(1) show "0 \<le> offset s cs rs x y" by (simp add: offset_def)
  from cy(2) w0 have "?cy * ?w \<le> (?h - 1) * ?w" by (rule mult_right_mono)
  then have "?cy * ?w \<le> ?w * ?h - ?w" by (simp add: algebra_simps)
  with cx(2) have "?cy * ?w + ?cx \<le> ?w * ?h - 1" by linarith
  then show "offset s cs rs x y \<le> (?w * ?h - 1) * 4" by (simp add: offset_def)
qed

lemma pixel_at_inside:
  "0 \<le> i \<Longrightarrow> i < int (length ps) \<Longrightarrow> pixel_at ps i = Some (ps ! nat i)"
  by (simp add: pixel_at_def)

lemma draw_cell_nth_3:
  "draw_cell s cs rs x y ! 3 =
     SpecularMaterial (pixel_at (capture_pixels s) (offset s cs rs x y))
                      (pixel_at (capture_pixels s) (offset s cs rs x y + 1))
                      (pixel_at (capture_pixels s) (offset s cs rs x y + 2))"
  by (simp add: draw_cell_def Let_def)

lemma nth_draw_frame:
  assumes x: "x < nat cs" and y: "y < nat rs" and j: "j < 7"
  shows "(lights s @ draw_rows s' cs rs 0) ! (5 + 7 * (y * nat cs + x) + j) = draw_cell s' cs rs x y ! j"
proof -
  have "(lights s @ draw_rows s' cs rs 0) ! (length (lights s) + (7 * (y * nat cs + x) + j))
      = draw_rows s' cs rs 0 ! (7 * (y * nat cs + x) + j)"
    by (rule nth_append_length_plus)
  also have "\<dots> = draw_cell s' cs rs x y ! j"
    using x y j by (rule nth_draw_rows)
  finally show ?thesis by (simp add: length_lights add.assoc)
qed

lemma ramp_state:
  "capture_width (loadPixels (setup_sketch ramp_frame)) = 192"
  "capture_height (loadPixels (setup_sketch ramp_frame)) = 108"
  "capture_pixels (loadPixels (setup_sketch ramp_frame)) = ramp_frame"
  "capture_video (loadPixels (setup_sketch ramp_frame)) = ramp_frame"
  "cols (loadPixels (setup_sketch ramp_frame)) = 64"
  "rows (loadPixels (setup_sketch ramp_frame)) = 36"
  "length ramp_frame = 82944"
  by (simp_all add: loadPixels_def setup_sketch_def ramp_frame_def cols_def rows_def)

lemma ramp_frame_nth: "i < 82944 \<Longrightarrow> ramp_frame ! i = of_nat i"
  by (simp add: ramp_frame_def)

lemma pixel_at_update:
  "0 \<le> i \<Longrightarrow> 0 \<le> j \<Longrightarrow> i \<noteq> j \<Longrightarrow> pixel_at (ps[nat j := v]) i = pixel_at ps i"
  by (simp add: pixel_at_def)

lemma offset_pixels_update:
  "offset (s\<lparr>capture_pixels := ps\<rparr>) cs rs x y = offset s cs rs x y"
  by (simp add: offset_def captureX_def captureY_def)

lemma sampled_3: "\<lfloor>fl (fl (real 3 / real_of_int 10) * real_of_int 10)\<rfloor> = 3"
  by (simp add: fl_def expo_def rne_def Let_def compute_bitlen)

lemma sampled_2: "\<lfloor>fl (fl (real 2 / real_of_int 10) * real_of_int 10)\<rfloor> = 2"
  by (simp add: fl_def expo_def rne_def Let_def compute_bitlen)

lemma sampled_14: "\<lfloor>fl (fl (real 15 / real_of_int 22) * real_of_int 22)\<rfloor> = 14"
  by (simp add: fl_def expo_def rne_def Let_def compute_bitlen)

lemma sampled_0: "\<lfloor>fl (fl (real 0 / real_of_int 22) * real_of_int 22)\<rfloor> = 0"
  by (simp add: fl_def)

lemma sampled_60: "\<lfloor>fl (fl (real 61 / real_of_int 108) * real_of_int 108)\<rfloor> = 60"
  by (simp add: fl_def expo_def rne_def Let_def compute_bitlen)

text \<open>
  C1 as stated, with srcX = floor((x / cols) * bufferWidth) taken of the exact
  product and with reads of buffer[92..95], does not hold of every cell. In
  double precision (15 / 22) * 22 is 14.999999999999998: for a 22 x 22 buffer
  and grid the cell x = 15, y = 0 has srcX = 14 and offset 56, where the exact
  product gives 15 and 60. Likewise row 61 of 108 samples line 60 of the
  capture's 108 lines, not line 61. And element 95 of the buffer is not read:
  changing it changes no call of the cell x = 3, y = 2 of a 10 x 10 grid.
\<close>

theorem sampler_rounding_counterexample:
  "captureX (setup_sketch []\<lparr>capture_width := 22, capture_height := 22\<rparr>) 22 15 = 14
   \<and> \<lfloor>(real 15 / real_of_int 22)
        * real_of_int (capture_width (setup_sketch []\<lparr>capture_width := 22, capture_height := 22\<rparr>))\<rfloor>
       = 15
   \<and> offset (setup_sketch []\<lparr>capture_width := 22, capture_height := 22\<rparr>) 22 22 15 0 = 56
   \<and> captureY (setup_sketch []) 108 61 = 60
   \<and> \<lfloor>(real 61 / real_of_int 108) * real_of_int (capture_height (setup_sketch []))\<rfloor> = 61
   \<and> draw_cell (setup_sketch []\<lparr>capture_width := 10, capture_height := 10,
                                  capture_pixels := (replicate 400 0)[95 := 255]\<rparr>) 10 10 3 2
       = draw_cell (setup_sketch []\<lparr>capture_width := 10, capture_height := 10,
                                    capture_pixels := replicate 400 0\<rparr>) 10 10 3 2"
proof -
  let ?s = "setup_sketch []\<lparr>capture_width := 22, capture_height := 22\<rparr>"
  have w: "capture_width ?s = 22" "capture_height ?s = 22" by simp_all
  have h: "capture_height (setup_sketch []) = 108" by (simp add: setup_sketch_def)
  have a: "captureX ?s 22 15 = 14"
    by (simp only: captureX_def w sampled_14)
  have b: "\<lfloor>(real 15 / real_of_int 22) * real_of_int (capture_width ?s)\<rfloor> = 15"
    by (simp only: w) simp
  have "captureY ?s 22 0 = 0"
    by (simp only: captureY_def w sampled_0)
  with a have c: "offset ?s 22 22 15 0 = 56"
    by (simp only: offset_def w) simp
  have d: "captureY (setup_sketch []) 108 61 = 60"
    by (simp only: captureY_def h sampled_60)
  have e: "\<lfloor>(real 61 / real_of_int 108) * real_of_int (capture_height (setup_sketch []))\<rfloor> = 61"
    by (simp only: h) simp
  have o: "offset (setup_sketch []\<lparr>capture_width := 10, capture_height := 10,
                                  capture_pixels := ps\<rparr>) 10 10 3 2 = 92" for ps
  proof -
    let ?t = "setup_sketch []\<lparr>capture_width := 10, capture_height := 10, capture_pixels := ps\<rparr>"
    have "capture_width ?t = 10" "capture_height ?t = 10" by simp_all
    then show ?thesis
      by (simp only: offset_def captureX_def captureY_def sampled_3 sampled_2) simp
  qed
  have f: "draw_cell (setup_sketch []\<lparr>capture_width := 10, capture_height := 10,
                                  capture_pixels := (replicate 400 0)[95 := 255]\<rparr>) 10 10 3 2
       = draw_cell (setup_sketch []\<lparr>capture_width := 10, capture_height := 10,
                                    capture_pixels := replicate 400 0\<rparr>) 10 10 3 2"
    by (simp add: draw_cell_def o pixel_at_def Let_def)
  from a b c d e f show ?thesis by blast
qed

text \<open>
  C1, as the code computes it. For every grid cell (x,y) with x < cols and
  y < rows the sampler computes srcX = floor(fl(fl(x / cols) * bufferWidth)) and
  srcY = floor(fl(fl(y / rows) * bufferHeight)), fl rounding to double
  precision, and offset = (srcY * bufferWidth + srcX) * 4. The material call of
  the cell, the fourth call of its block in the frame, carries the channels read
  at offset, offset + 1 and offset + 2 of the pixel array loaded in this frame;
  for an array of bufferWidth * bufferHeight * 4 elements these are its elements
  at the three indices, and the element at offset + 3 is not read. For a 10 x 10
  buffer and a 10 x 10 grid, the cell x = 3, y = 2 has offset 92 and its reads
  are at 92, 93 and 94.
\<close>

theorem sampler_reads:
  assumes x: "x < nat cs" and y: "y < nat rs"
  shows "captureX s cs x = \<lfloor>fl (fl (real x / real_of_int cs) * real_of_int (capture_width s))\<rfloor>
    \<and> captureY s rs y = \<lfloor>fl (fl (real y / real_of_int rs) * real_of_int (capture_height s))\<rfloor>
    \<and> offset s cs rs x y = (captureY s rs y * capture_width s + captureX s cs x) * 4
    \<and> draw_rows s cs rs 0 ! (7 * (y * nat cs + x) + 3) =
        SpecularMaterial (pixel_at (capture_pixels s) (offset s cs rs x y))
                         (pixel_at (capture_pixels s) (offset s cs rs x y + 1))
                         (pixel_at (capture_pixels s) (offset s cs rs x y + 2))
    \<and> (cs = cols s \<and> rs = rows s \<longrightarrow>
        (\<exists>t. draw s = Some (t, loadPixels s)
          \<and> t ! (5 + 7 * (y * nat cs + x) + 3) =
              SpecularMaterial (pixel_at (capture_video s) (offset s cs rs x y))
                               (pixel_at (capture_video s) (offset s cs rs x y + 1))
                               (pixel_at (capture_video s) (offset s cs rs x y + 2))))
    \<and> (1 \<le> capture_width s \<and> 1 \<le> capture_height s \<and> cs \<le> 2 ^ 53 \<and> rs \<le> 2 ^ 53
        \<and> int (length (capture_pixels s)) = capture_width s * capture_height s * 4 \<longrightarrow>
          draw_rows s cs rs 0 ! (7 * (y * nat cs + x) + 3) =
            SpecularMaterial (Some (capture_pixels s ! nat (offset s cs rs x y)))
                             (Some (capture_pixels s ! nat (offset s cs rs x y + 1)))
                             (Some (capture_pixels s ! nat (offset s cs rs x y + 2)))
          \<and> (\<forall>v. draw_cell (s\<lparr>capture_pixels := (capture_pixels s)[nat (offset s cs rs x y + 3) := v]\<rparr>)
                    cs rs x y = draw_cell s cs rs x y))
    \<and> offset (s\<lparr>capture_width := 10, capture_height := 10\<rparr>) 10 10 3 2 = 92
    \<and> draw_cell (s\<lparr>capture_width := 10, capture_height := 10\<rparr>) 10 10 3 2 ! 3 =
        SpecularMaterial (pixel_at (capture_pixels s) 92)
                         (pixel_at (capture_pixels s) 93)
                         (pixel_at (capture_pixels s) 94)"
proof -
  let ?off = "offset s cs rs x y"
  let ?ps = "capture_pixels s"
  have a: "draw_rows s cs rs 0 ! (7 * (y * nat cs + x) + 3) =
        SpecularMaterial (pixel_at ?ps ?off) (pixel_at ?ps (?off + 1)) (pixel_at ?ps (?off + 2))"
    using nth_draw_rows [OF x y, of 3 s] by (simp add: draw_cell_nth_3)
  have b: "\<exists>t. draw s = Some (t, loadPixels s)
          \<and> t ! (5 + 7 * (y * nat cs + x) + 3) =
              SpecularMaterial (pixel_at (capture_video s) ?off)
                               (pixel_at (capture_video s) (?off + 1))
                               (pixel_at (capture_video s) (?off + 2))"
    if c: "cs = cols s" and r: "rs = rows s"
  proof -
    have "gridSize s \<noteq> 0"
    proof
      assume "gridSize s = 0"
      then have "cols s = 0" by (simp add: cols_def)
      with x c show False by simp
    qed
    then have d: "draw s = Some (lights s @ draw_rows (loadPixels s) cs rs 0, loadPixels s)"
      using draw_Some [of s] c r by simp
    have o: "offset (loadPixels s) cs rs x y = ?off"
      by (simp add: loadPixels_def offset_pixels_update)
    have "(lights s @ draw_rows (loadPixels s) cs rs 0) ! (5 + 7 * (y * nat cs + x) + 3)
        = draw_cell (loadPixels s) cs rs x y ! 3"
      using x y by (rule nth_draw_frame) simp
    also have "\<dots> = SpecularMaterial (pixel_at (capture_video s) ?off)
                               (pixel_at (capture_video s) (?off + 1))
                               (pixel_at (capture_video s) (?off + 2))"
      by (simp add: draw_cell_nth_3 o) (simp add: loadPixels_def)
    finally show ?thesis using d by blast
  qed
  have c: "draw_rows s cs rs 0 ! (7 * (y * nat cs + x) + 3) =
            SpecularMaterial (Some (?ps ! nat ?off)) (Some (?ps ! nat (?off + 1)))
                             (Some (?ps ! nat (?off + 2)))
          \<and> (\<forall>v. draw_cell (s\<lparr>capture_pixels := ?ps[nat (?off + 3) := v]\<rparr>) cs rs x y
                = draw_cell s cs rs x y)"
    if w: "1 \<le> capture_width s" and h: "1 \<le> capture_height s"
      and cs: "cs \<le> 2 ^ 53" and rs: "rs \<le> 2 ^ 53"
      and len: "int (length ?ps) = capture_width s * capture_height s * 4"
  proof -
    from x y have xi: "int x < cs" and yi: "int y < rs" by simp_all
    note bd = offset_bounds [OF w h cs rs xi yi]
    have rd: "pixel_at ?ps (?off + k) = Some (?ps ! nat (?off + k))"
      if k: "0 \<le> k" "k \<le> 3" for k
    proof (rule pixel_at_inside)
      from bd(1) k(1) show "0 \<le> ?off + k" by simp
      from bd(2) k(2) len show "?off + k < int (length ?ps)" by simp
    qed
    from a rd [of 0] rd [of 1] rd [of 2]
    have c1: "draw_rows s cs rs 0 ! (7 * (y * nat cs + x) + 3) =
            SpecularMaterial (Some (?ps ! nat ?off)) (Some (?ps ! nat (?off + 1)))
                             (Some (?ps ! nat (?off + 2)))"
      by simp
    have c2: "draw_cell (s\<lparr>capture_pixels := ?ps[nat (?off + 3) := v]\<rparr>) cs rs x y
        = draw_cell s cs rs x y" for v
    proof -
      have u: "pixel_at (?ps[nat (?off + 3) := v]) (?off + k) = pixel_at ?ps (?off + k)"
        if "0 \<le> k" "k < 3" for k
        using bd(1) that by (intro pixel_at_update) simp_all
      from u [of 0] u [of 1] u [of 2] show ?thesis
        by (simp add: draw_cell_def offset_pixels_update)
    qed
    from c1 c2 show ?thesis by blast
  qed
  have w10: "capture_width (s\<lparr>capture_width := 10, capture_height := 10\<rparr>) = 10"
    "capture_height (s\<lparr>capture_width := 10, capture_height := 10\<rparr>) = 10"
    by simp_all
  have e: "offset (s\<lparr>capture_width := 10, capture_height := 10\<rparr>) 10 10 3 2 = 92"
    by (simp only: offset_def captureX_def captureY_def w10 sampled_3 sampled_2) simp
  have f: "draw_cell (s\<lparr>capture_width := 10, capture_height := 10\<rparr>) 10 10 3 2 ! 3 =
        SpecularMaterial (pixel_at (capture_pixels s) 92)
                         (pixel_at (capture_pixels s) 93)
                         (pixel_at (capture_pixels s) 94)"
    by (simp add: draw_cell_nth_3 e)
  have g: "captureX s cs x = \<lfloor>fl (fl (real x / real_of_int cs) * real_of_int (capture_width s))\<rfloor>"
    "captureY s rs y = \<lfloor>fl (fl (real y / real_of_int rs) * real_of_int (capture_height s))\<rfloor>"
    "offset s cs rs x y = (captureY s rs y * capture_width s + captureX s cs x) * 4"
    by (simp_all only: captureX_def captureY_def offset_def)
  from g a b c e f show ?thesis by blast
qed

theorem sampler_reads_witness:
  "(3::nat) < nat (cols (loadPixels (setup_sketch ramp_frame)))
   \<and> (2::nat) < nat (rows (loadPixels (setup_sketch ramp_frame)))
   \<and> cols (loadPixels (setup_sketch ramp_frame)) = 64
   \<and> rows (loadPixels (setup_sketch ramp_frame)) = 36
   \<and> 1 \<le> capture_width (loadPixels (setup_sketch ramp_frame))
   \<and> 1 \<le> capture_height (loadPixels (setup_sketch ramp_frame))
   \<and> (64::int) \<le> 2 ^ 53 \<and> (36::int) \<le> 2 ^ 53
   \<and> int (length (capture_pixels (loadPixels (setup_sketch ramp_frame)))) = 192 * 108 * 4
   \<and> captureX (loadPixels (setup_sketch ramp_frame)) 64 3 = 9
   \<and> captureY (loadPixels (setup_sketch ramp_frame)) 36 2 = 6
   \<and> offset (loadPixels (setup_sketch ramp_frame)) 64 36 3 2 = 4644
   \<and> draw_rows (loadPixels (setup_sketch ramp_frame)) 64 36 0 ! 920
       = SpecularMaterial (Some 36) (Some 37) (Some 38)
   \<and> (\<exists>t. draw (loadPixels (setup_sketch ramp_frame))
            = Some (t, loadPixels (loadPixels (setup_sketch ramp_frame)))
          \<and> t ! 925 = SpecularMaterial (Some 36) (Some 37) (Some 38))"
proof -
  let ?s = "loadPixels (setup_sketch ramp_frame)"
  note st = ramp_state
  have x: "(3::nat) < nat (cols ?s)" and y: "(2::nat) < nat (rows ?s)"
    by (simp_all add: st)
  have cx: "captureX ?s 64 3 = 9" by (simp only: captureX_def st sampled_9)
  have cy: "captureY ?s 36 2 = 6" by (simp only: captureY_def st sampled_6)
  have off: "offset ?s 64 36 3 2 = 4644"
    by (simp only: offset_def cx cy st) simp
  have hyp: "1 \<le> capture_width ?s \<and> 1 \<le> capture_height ?s
      \<and> cols ?s \<le> 2 ^ 53 \<and> rows ?s \<le> 2 ^ 53
      \<and> int (length (capture_pixels ?s)) = capture_width ?s * capture_height ?s * 4"
    by (simp add: st)
  have px: "ramp_frame ! 4644 = 36" "ramp_frame ! 4645 = 37" "ramp_frame ! 4646 = 38"
    by (simp_all add: ramp_frame_nth)
  have pa: "pixel_at ramp_frame 4644 = Some 36" "pixel_at ramp_frame 4645 = Some 37"
    "pixel_at ramp_frame 4646 = Some 38"
    using px by (simp_all add: pixel_at_def st)
  note t = sampler_reads [OF x y, of ?s]
  from t hyp
  have "draw_rows ?s (cols ?s) (rows ?s) 0 ! (7 * (2 * nat (cols ?s) + 3) + 3) =
            SpecularMaterial (Some (capture_pixels ?s ! nat (offset ?s (cols ?s) (rows ?s) 3 2)))
                             (Some (capture_pixels ?s ! nat (offset ?s (cols ?s) (rows ?s) 3 2 + 1)))
                             (Some (capture_pixels ?s ! nat (offset ?s (cols ?s) (rows ?s) 3 2 + 2)))"
    by blast
  then have a: "draw_rows ?s 64 36 0 ! 920 = SpecularMaterial (Some 36) (Some 37) (Some 38)"
    by (simp add: st off px)
  from t
  have "cols ?s = cols ?s \<and> rows ?s = rows ?s \<longrightarrow>
        (\<exists>t. draw ?s = Some (t, loadPixels ?s)
          \<and> t ! (5 + 7 * (2 * nat (cols ?s) + 3) + 3) =
              SpecularMaterial (pixel_at (capture_video ?s) (offset ?s (cols ?s) (rows ?s) 3 2))
                               (pixel_at (capture_video ?s) (offset ?s (cols ?s) (rows ?s) 3 2 + 1))
                               (pixel_at (capture_video ?s) (offset ?s (cols ?s) (rows ?s) 3 2 + 2)))"
    by blast
  then have b: "\<exists>t. draw ?s = Some (t, loadPixels ?s)
          \<and> t ! 925 = SpecularMaterial (Some 36) (Some 37) (Some 38)"
    by (simp add: st off pa)
  from x y hyp cx cy off a b show ?thesis by (simp add: st)
qed



subsection \<open>The calls of one frame\<close>

text \<open>
  C7. With a positive gridSize, whatever the pixel array holds, one frame
  returns, and its calls are the five calls of the lighting followed by one
  block per grid cell, row by row; each block holds exactly one cylinder call
  (its sixth call), the lighting holds none, and the frame holds cols * rows
  cylinder calls in all.
\<close>

theorem one_disk_per_cell:
  assumes g: "0 < gridSize s"
  shows "draw s = Some (lights s @ draw_rows (loadPixels s) (cols s) (rows s) 0, loadPixels s)
    \<and> draw_rows (loadPixels s) (cols s) (rows s) 0 =
        concat (map (\<lambda>y. concat (map (\<lambda>x. draw_cell (loadPixels s) (cols s) (rows s) x y)
                                     [0..<nat (cols s)])) [0..<nat (rows s)])
    \<and> filter is_cylinder (lights s) = []
    \<and> (\<forall>x y. length (filter is_cylinder (draw_cell (loadPixels s) (cols s) (rows s) x y)) = 1)
    \<and> (\<forall>x y. x < nat (cols s) \<and> y < nat (rows s) \<longrightarrow>
          (lights s @ draw_rows (loadPixels s) (cols s) (rows s) 0) ! (5 + 7 * (y * nat (cols s) + x) + 5)
            = Cylinder (diskRadius s) 2)
    \<and> length (filter is_cylinder (lights s @ draw_rows (loadPixels s) (cols s) (rows s) 0))
        = nat (cols s) * nat (rows s)"
proof -
  have d: "draw s = Some (lights s @ draw_rows (loadPixels s) (cols s) (rows s) 0, loadPixels s)"
    using g by (rule draw_Some_pos)
  have n: "length (filter is_cylinder (lights s @ draw_rows (loadPixels s) (cols s) (rows s) 0))
        = nat (cols s) * nat (rows s)"
    by (simp add: cylinders_lights cylinders_draw_rows)
  have p: "(lights s @ draw_rows (loadPixels s) (cols s) (rows s) 0) ! (5 + 7 * (y * nat (cols s) + x) + 5)
            = Cylinder (diskRadius s) 2"
    if "x < nat (cols s)" "y < nat (rows s)" for x y
  proof -
    have "(lights s @ draw_rows (loadPixels s) (cols s) (rows s) 0) ! (5 + 7 * (y * nat (cols s) + x) + 5)
        = draw_cell (loadPixels s) (cols s) (rows s) x y ! 5"
      using that by (rule nth_draw_frame) simp
    then show ?thesis by (simp add: draw_cell_def Let_def loadPixels_def)
  qed
  from d n p show ?thesis
    by (simp add: cylinders_lights cylinders_draw_cell draw_rows_cells)
qed

theorem one_disk_per_cell_witness:
  "0 < gridSize (setup_sketch grey_frame)
   \<and> (\<exists>t. draw (setup_sketch grey_frame) = Some (t, loadPixels (setup_sketch grey_frame))
        \<and> length (filter is_cylinder t) = 2304
        \<and> t ! (5 + 7 * (2 * 64 + 3) + 5) = Cylinder 15 2)"
proof -
  let ?s = "setup_sketch grey_frame"
  have g: "0 < gridSize ?s" by (simp add: setup_sketch_def)
  have c: "cols ?s = 64" by (simp add: cols_def setup_sketch_def)
  have r: "rows ?s = 36" by (simp add: rows_def setup_sketch_def)
  have k: "diskRadius ?s = 15" by (simp add: setup_sketch_def)
  note t = one_disk_per_cell [OF g]
  from t have "draw ?s = Some (lights ?s @ draw_rows (loadPixels ?s) (cols ?s) (rows ?s) 0, loadPixels ?s)"
    by blast
  then have d: "draw ?s = Some (lights ?s @ draw_rows (loadPixels ?s) 64 36 0, loadPixels ?s)"
    by (simp add: c r)
  from t have "length (filter is_cylinder (lights ?s @ draw_rows (loadPixels ?s) (cols ?s) (rows ?s) 0))
      = nat (cols ?s) * nat (rows ?s)"
    by blast
  then have n: "length (filter is_cylinder (lights ?s @ draw_rows (loadPixels ?s) 64 36 0)) = 2304"
    by (simp add: c r)
  from t have "\<forall>x y. x < nat (cols ?s) \<and> y < nat (rows ?s) \<longrightarrow>
          (lights ?s @ draw_rows (loadPixels ?s) (cols ?s) (rows ?s) 0) ! (5 + 7 * (y * nat (cols ?s) + x) + 5)
            = Cylinder (diskRadius ?s) 2"
    by blast
  then have "(3::nat) < nat (cols ?s) \<and> (2::nat) < nat (rows ?s) \<longrightarrow>
          (lights ?s @ draw_rows (loadPixels ?s) (cols ?s) (rows ?s) 0) ! (5 + 7 * (2 * nat (cols ?s) + 3) + 5)
            = Cylinder (diskRadius ?s) 2"
    by blast
  then have p: "(lights ?s @ draw_rows (loadPixels ?s) 64 36 0) ! (5 + 7 * (2 * 64 + 3) + 5) = Cylinder 15 2"
    by (simp add: c r k)
  from g d n p show ?thesis by blast
qed

subsection \<open>The state after a frame\<close>

text \<open>
  C8 as stated, "after a frame the pixel array, gridSize and diskRadius are equal
  to their values before the frame", does not hold of the pixel array: the first
  frame after the start finds it empty and leaves the loaded image in it.
\<close>

theorem frame_reloads_pixels_counterexample:
  "map_option (\<lambda>r. capture_pixels (snd r)) (draw (setup_sketch grey_frame)) = Some grey_frame
   \<and> capture_pixels (setup_sketch grey_frame) = []
   \<and> map_option (\<lambda>r. capture_pixels (snd r)) (draw (setup_sketch grey_frame))
       \<noteq> Some (capture_pixels (setup_sketch grey_frame))"
proof -
  have a: "map_option (\<lambda>r. capture_pixels (snd r)) (draw (setup_sketch grey_frame)) = Some grey_frame"
    by (simp add: draw_def Let_def loadPixels_def setup_sketch_def)
  have b: "capture_pixels (setup_sketch grey_frame) = []"
    by (simp add: setup_sketch_def)
  have c: "grey_frame \<noteq> []"
    by (simp add: grey_frame_def)
  show ?thesis unfolding a b using c by simp
qed

text \<open>
  C8, for what a frame does leave unchanged. With a positive gridSize, one frame
  returns and leaves gridSize,
  diskRadius and every other field but the pixel array as they were; the pixel
  array is written once, by loadPixels, and holds the camera's current image
  after the frame. The state after the frame is the state before it whenever the
  pixel array already held that image.
\<close>

theorem frame_effect:
  assumes g: "0 < gridSize s"
  shows "map_option snd (draw s) = Some (s\<lparr>capture_pixels := capture_video s\<rparr>)
    \<and> (\<forall>t s'. draw s = Some (t, s') \<longrightarrow>
          gridSize s' = gridSize s \<and> diskRadius s' = diskRadius s
          \<and> scaleValue s' = scaleValue s \<and> width s' = width s \<and> height s' = height s
          \<and> mouseX s' = mouseX s \<and> mouseY s' = mouseY s
          \<and> capture_width s' = capture_width s \<and> capture_height s' = capture_height s
          \<and> capture_video s' = capture_video s
          \<and> capture_pixels s' = capture_video s
          \<and> (capture_pixels s = capture_video s \<longrightarrow> s' = s))"
proof -
  have d: "draw s = Some (lights s @ draw_rows (loadPixels s) (cols s) (rows s) 0, loadPixels s)"
    using g by (rule draw_Some_pos)
  have l: "loadPixels s = s\<lparr>capture_pixels := capture_video s\<rparr>"
    by (simp add: loadPixels_def)
  show ?thesis
    unfolding d l by simp
qed

theorem frame_effect_witness:
  "0 < gridSize (loadPixels (setup_sketch grey_frame))
   \<and> capture_pixels (loadPixels (setup_sketch grey_frame))
       = capture_video (loadPixels (setup_sketch grey_frame))
   \<and> (\<exists>t. draw (loadPixels (setup_sketch grey_frame))
          = Some (t, loadPixels (setup_sketch grey_frame)))"
proof -
  let ?s = "loadPixels (setup_sketch grey_frame)"
  have g: "0 < gridSize ?s" by (simp add: sample_state)
  have p: "capture_pixels ?s = capture_video ?s"
    by (simp add: loadPixels_def)
  have d: "draw ?s = Some (lights ?s @ draw_rows (loadPixels ?s) (cols ?s) (rows ?s) 0, loadPixels ?s)"
    using g by (rule draw_Some_pos)
  from frame_effect [OF g] d p have "loadPixels ?s = ?s" by blast
  with d g p show ?thesis by metis
qed

subsection \<open>What a frame depends on\<close>





end
